theory Spec2Isabelle
  imports Complex_Main "HOL-Library.AList" "HOL-Library.Log_Nat"
begin

section \<open>Python values used by pillowfight.py\<close>

text \<open>
  Text is a \<open>string\<close>: a list of characters with code points 0 to 255. In that range the
  decimal digits of Python's \<open>\d\<close> and of \<open>int()\<close> are exactly \<open>0\<close> to \<open>9\<close>, and the
  characters for which \<open>str.isspace\<close> holds are 9 to 13, 28 to 32, 133 and 160.
  An exception is a value of \<open>py_error\<close>; a function that can raise returns
  \<open>py_error + 'a\<close>, with \<open>Inl\<close> for the exception.
  The three \<open>raise Exception(...)\<close> statements of the source are told apart by their
  message: \<open>BelowThroughputFloor v\<close> is "Worst OPS/SEC value reported is v",
  \<open>AboveLatencyCeiling v\<close> is "Worst response time reported is v milliseconds" and
  \<open>InstanceRunFailure\<close> is "Pillowfight failed to complete".
\<close>

datatype py_error =
    ValueError
  | IndexError
  | KeyError
  | TypeError
  | OverflowError
  | ZeroDivisionError
  | TimeoutExpiredError
  | BelowThroughputFloor int
  | AboveLatencyCeiling real
  | InstanceRunFailure

definition is_digit :: "char \<Rightarrow> bool" where
  "is_digit c = (c \<in> set ''0123456789'')"

definition is_space :: "char \<Rightarrow> bool" where
  "is_space c = (let n = (of_char c :: nat) in
     (9 \<le> n \<and> n \<le> 13) \<or> (28 \<le> n \<and> n \<le> 32) \<or> n = 133 \<or> n = 160)"

definition digit_val :: "char \<Rightarrow> int" where
  "digit_val c = int (of_char c) - 48"

definition newline :: char where
  "newline = CHR 0x0A"

text \<open>\<open>s.startswith(p)\<close>.\<close>

fun startswith :: "string \<Rightarrow> string \<Rightarrow> bool" where
  "startswith s [] = True"
| "startswith [] (p # ps) = False"
| "startswith (c # cs) (p # ps) = (c = p \<and> startswith cs ps)"

text \<open>\<open>s.split(sep)\<close> for a separator of one character: never an empty list.\<close>

fun split_on :: "char \<Rightarrow> string \<Rightarrow> string list" where
  "split_on sep [] = [[]]"
| "split_on sep (c # cs) =
     (if c = sep then [] # split_on sep cs
      else (case split_on sep cs of
              [] \<Rightarrow> [[c]]
            | w # ws \<Rightarrow> (c # w) # ws))"

text \<open>
  \<open>s.split()\<close>: the maximal runs of characters that are not whitespace. The first
  argument is the run read so far.
\<close>

fun split_ws_acc :: "string \<Rightarrow> string \<Rightarrow> string list" where
  "split_ws_acc cur [] = (if cur = [] then [] else [cur])"
| "split_ws_acc cur (c # cs) =
     (if is_space c
      then (if cur = [] then split_ws_acc [] cs else cur # split_ws_acc [] cs)
      else split_ws_acc (cur @ [c]) cs)"

definition split_ws :: "string \<Rightarrow> string list" where
  "split_ws s = split_ws_acc [] s"

text \<open>\<open>s.strip()\<close>.\<close>

definition strip :: "string \<Rightarrow> string" where
  "strip s = rev (dropWhile is_space (rev (dropWhile is_space s)))"

text \<open>\<open>s.replace(old, new)\<close> for two strings of one character.\<close>

definition replace_char :: "char \<Rightarrow> char \<Rightarrow> string \<Rightarrow> string" where
  "replace_char old new s = map (\<lambda>c. if c = old then new else c) s"

text \<open>\<open>xs[i]\<close> for \<open>i \<ge> 0\<close> and \<open>xs[-1]\<close>: IndexError out of range.\<close>

definition index :: "'a list \<Rightarrow> nat \<Rightarrow> py_error + 'a" where
  "index xs i = (if i < length xs then Inr (xs ! i) else Inl IndexError)"

definition index_last :: "'a list \<Rightarrow> py_error + 'a" where
  "index_last xs = (if xs = [] then Inl IndexError else Inr (last xs))"

text \<open>
  \<open>int(s)\<close> in base 10: surrounding whitespace is dropped, then an optional sign, then
  digits, where one underscore may stand between two digits. Anything else is a
  ValueError. The limit on the number of digits that later interpreters add is not
  modelled.
\<close>

fun digits_from :: "int \<Rightarrow> string \<Rightarrow> int option" where
  "digits_from acc [] = Some acc"
| "digits_from acc [c] = (if is_digit c then Some (acc * 10 + digit_val c) else None)"
| "digits_from acc (c # d # ds) =
     (if is_digit c then digits_from (acc * 10 + digit_val c) (d # ds)
      else if c = CHR ''_'' \<and> is_digit d then digits_from (acc * 10 + digit_val d) ds
      else None)"

definition parse_digits :: "string \<Rightarrow> int option" where
  "parse_digits s =
     (case s of
        [] \<Rightarrow> None
      | c # cs \<Rightarrow> if is_digit c then digits_from (digit_val c) cs else None)"

definition py_int :: "string \<Rightarrow> py_error + int" where
  "py_int s =
     (case (case strip s of
              [] \<Rightarrow> None
            | c # cs \<Rightarrow>
                if c = CHR ''-'' then map_option uminus (parse_digits cs)
                else if c = CHR ''+'' then parse_digits cs
                else parse_digits (c # cs)) of
        None \<Rightarrow> Inl ValueError
      | Some n \<Rightarrow> Inr n)"

text \<open>\<open>min(xs)\<close> and \<open>max(xs)\<close>: ValueError on an empty sequence.\<close>

definition py_min :: "int list \<Rightarrow> py_error + int" where
  "py_min xs = (case xs of [] \<Rightarrow> Inl ValueError | y # ys \<Rightarrow> Inr (fold min ys y))"

definition py_max :: "int list \<Rightarrow> py_error + int" where
  "py_max xs = (case xs of [] \<Rightarrow> Inl ValueError | y # ys \<Rightarrow> Inr (fold max ys y))"

section \<open>parse_pillowfight_log\<close>

text \<open>
  The returned dictionary \<open>{"opspersec": ops_per_sec, "resptimes": resp_hist}\<close>.
  \<open>resp_hist\<close> is a dictionary from the upper bound to \<open>{"minindx": i1, "number": n}\<close>:
  an association list in insertion order, where storing under a key that is present
  replaces its value in place (\<open>AList.update\<close>), as a Python dict does.
\<close>

record bucket =
  minindx :: int
  number :: int

type_synonym resp_hist = "(int \<times> bucket) list"

record stats =
  opspersec :: "int list"
  resptimes :: resp_hist

text \<open>
  \<open>re.match("^\\[\\d+ +- \\d+ *\\][um]s \\|#* - \\d+", dline)\<close>. Each function below
  reads one item of the pattern at the front of the text and returns the rest. The
  repetitions are read greedily, which loses no match here: every repetition is followed
  in the pattern by a character outside its class.
\<close>

definition eat_lit :: "char \<Rightarrow> string \<Rightarrow> string option" where
  "eat_lit c s = (case s of [] \<Rightarrow> None | x # xs \<Rightarrow> if x = c then Some xs else None)"

definition eat_class :: "(char \<Rightarrow> bool) \<Rightarrow> string \<Rightarrow> string option" where
  "eat_class p s = (case s of [] \<Rightarrow> None | x # xs \<Rightarrow> if p x then Some xs else None)"

definition eat_star :: "(char \<Rightarrow> bool) \<Rightarrow> string \<Rightarrow> string option" where
  "eat_star p s = Some (dropWhile p s)"

definition eat_plus :: "(char \<Rightarrow> bool) \<Rightarrow> string \<Rightarrow> string option" where
  "eat_plus p s = (if takeWhile p s = [] then None else Some (dropWhile p s))"

definition bucket_re_rest :: "string \<Rightarrow> string option" where
  "bucket_re_rest s =
     Option.bind (eat_lit CHR ''['' s) (\<lambda>s.
     Option.bind (eat_plus is_digit s) (\<lambda>s.
     Option.bind (eat_plus (\<lambda>c. c = CHR '' '') s) (\<lambda>s.
     Option.bind (eat_lit CHR ''-'' s) (\<lambda>s.
     Option.bind (eat_lit CHR '' '' s) (\<lambda>s.
     Option.bind (eat_plus is_digit s) (\<lambda>s.
     Option.bind (eat_star (\<lambda>c. c = CHR '' '') s) (\<lambda>s.
     Option.bind (eat_lit CHR '']'' s) (\<lambda>s.
     Option.bind (eat_class (\<lambda>c. c = CHR ''u'' \<or> c = CHR ''m'') s) (\<lambda>s.
     Option.bind (eat_lit CHR ''s'' s) (\<lambda>s.
     Option.bind (eat_lit CHR '' '' s) (\<lambda>s.
     Option.bind (eat_lit CHR ''|'' s) (\<lambda>s.
     Option.bind (eat_star (\<lambda>c. c = CHR ''#'') s) (\<lambda>s.
     Option.bind (eat_lit CHR '' '' s) (\<lambda>s.
     Option.bind (eat_lit CHR ''-'' s) (\<lambda>s.
     Option.bind (eat_lit CHR '' '' s) (\<lambda>s.
     eat_plus is_digit s))))))))))))))))"

definition bucket_re_match :: "string \<Rightarrow> bool" where
  "bucket_re_match s = (bucket_re_rest s \<noteq> None)"

text \<open>
  \<open>for element in ["[", "]", "|", "-", "#"]: dline = dline.replace(element, " ")\<close>
\<close>

definition strip_decor :: "string \<Rightarrow> string" where
  "strip_decor dline = fold (\<lambda>element s. replace_char element CHR '' '' s) ''[]|-#'' dline"

text \<open>
  The first \<open>if\<close> of the loop body: an OPS/SEC line appends its last field, read as an
  integer, to \<open>ops_per_sec\<close>.
\<close>

definition ops_line :: "string \<Rightarrow> int list \<Rightarrow> py_error + int list" where
  "ops_line dline ops_per_sec =
     (if startswith dline ''OPS/SEC'' then
        (case index_last (split_on CHR '' '' dline) of
           Inl e \<Rightarrow> Inl e
         | Inr f \<Rightarrow>
             (case py_int (strip f) of
                Inl e \<Rightarrow> Inl e
              | Inr dnumb \<Rightarrow> Inr (ops_per_sec @ [dnumb])))
      else Inr ops_per_sec)"

text \<open>
  The second \<open>if\<close>: the key and the value a histogram line stores, \<open>None\<close> for a line
  the pattern does not match.
\<close>

definition bucket_line :: "string \<Rightarrow> py_error + (int \<times> bucket) option" where
  "bucket_line dline =
     (if bucket_re_match dline then
        (let parts = split_ws (strip_decor dline) in
         case index parts 0 of Inl e \<Rightarrow> Inl e | Inr p0 \<Rightarrow>
         case py_int p0 of Inl e \<Rightarrow> Inl e | Inr i1 \<Rightarrow>
         case index parts 1 of Inl e \<Rightarrow> Inl e | Inr p1 \<Rightarrow>
         case py_int p1 of Inl e \<Rightarrow> Inl e | Inr i2 \<Rightarrow>
         case index parts 2 of Inl e \<Rightarrow> Inl e | Inr p2 \<Rightarrow>
         (let (i1, i2) = (if p2 = ''ms'' then (i1 * 1000, i2 * 1000) else (i1, i2)) in
          case index parts 3 of Inl e \<Rightarrow> Inl e | Inr p3 \<Rightarrow>
          case py_int p3 of Inl e \<Rightarrow> Inl e | Inr n \<Rightarrow>
          Inr (Some (i2, \<lparr>minindx = i1, number = n\<rparr>))))
      else Inr None)"

definition hist_line :: "string \<Rightarrow> resp_hist \<Rightarrow> py_error + resp_hist" where
  "hist_line dline resp_hist =
     (case bucket_line dline of
        Inl e \<Rightarrow> Inl e
      | Inr None \<Rightarrow> Inr resp_hist
      | Inr (Some (i2, b)) \<Rightarrow> Inr (AList.update i2 b resp_hist))"

text \<open>
  \<open>except ValueError\<close>: the line is logged and the loop goes on with what the body had
  stored before it raised. Any other exception leaves the function.
\<close>

definition handler :: "py_error \<Rightarrow> stats \<Rightarrow> py_error + stats" where
  "handler e st = (if e = ValueError then Inr st else Inl e)"

definition parse_line :: "string \<Rightarrow> stats \<Rightarrow> py_error + stats" where
  "parse_line dline st =
     (case ops_line dline (opspersec st) of
        Inl e \<Rightarrow> handler e st
      | Inr ops \<Rightarrow>
          (case hist_line dline (resptimes st) of
             Inl e \<Rightarrow> handler e (st\<lparr>opspersec := ops\<rparr>)
           | Inr h \<Rightarrow> Inr \<lparr>opspersec = ops, resptimes = h\<rparr>))"

fun parse_lines :: "string list \<Rightarrow> stats \<Rightarrow> py_error + stats" where
  "parse_lines [] st = Inr st"
| "parse_lines (dline # lines) st =
     (case parse_line dline st of
        Inl e \<Rightarrow> Inl e
      | Inr st' \<Rightarrow> parse_lines lines st')"

definition parse_pillowfight_log :: "string \<Rightarrow> py_error + stats" where
  "parse_pillowfight_log data_from_log =
     parse_lines (split_on newline data_from_log) \<lparr>opspersec = [], resptimes = []\<rparr>"

section \<open>sanity_check\<close>

text \<open>
  \<open>a / b\<close> on two integers is the quotient rounded to the nearest double, ties to the
  even mantissa; it raises OverflowError when that value is beyond the doubles and
  ZeroDivisionError when \<open>b\<close> is 0. A double is the real number it denotes:
  \<open>m * 2 ^ e\<close> with a mantissa below \<open>2 ^ 53\<close> and \<open>e\<close> from -1074 on.
  \<open>round_half_even n d\<close> is the integer nearest to \<open>n / d\<close>, and
  \<open>floor_log2 n d\<close> the integer part of the binary logarithm of \<open>n / d\<close>, both for
  positive \<open>n\<close> and \<open>d\<close>; \<open>bitlen\<close> is \<open>int.bit_length\<close>.
\<close>

definition round_half_even :: "int \<Rightarrow> int \<Rightarrow> int" where
  "round_half_even n d =
     (let q = n div d; r = n mod d in
      if 2 * r < d then q
      else if d < 2 * r then q + 1
      else if even q then q else q + 1)"

definition floor_log2 :: "int \<Rightarrow> int \<Rightarrow> int" where
  "floor_log2 n d =
     (let t = bitlen n - bitlen d in
      if (if 0 \<le> t then d * 2 ^ nat t \<le> n else d \<le> n * 2 ^ nat (- t)) then t else t - 1)"

definition scale2 :: "int \<Rightarrow> int \<Rightarrow> real" where
  "scale2 m e = (if 0 \<le> e then of_int m * 2 ^ nat e else of_int m / 2 ^ nat (- e))"

definition true_div :: "int \<Rightarrow> int \<Rightarrow> py_error + real" where
  "true_div a b =
     (if b = 0 then Inl ZeroDivisionError
      else if a = 0 then Inr 0
      else
        (let n = \<bar>a\<bar>; d = \<bar>b\<bar>;
             e = max (floor_log2 n d - 52) (- 1074);
             m = (if 0 \<le> e then round_half_even n (d * 2 ^ nat e)
                  else round_half_even (n * 2 ^ nat (- e)) d)
         in if 0 \<le> e \<and> 2 ^ 1024 \<le> m * 2 ^ nat e then Inl OverflowError
            else Inr (of_int (sgn a * sgn b) * scale2 m e)))"

text \<open>
  The class attributes \<open>MIN_ACCEPTABLE_OPS_PER_SEC\<close> and \<open>MAX_ACCEPTABLE_RESPONSE_TIME\<close>
  are the two thresholds; \<open>sanity_check_with\<close> takes them as arguments and
  \<open>sanity_check\<close> is the method with the values the class gives them. \<open>stat2\<close> is the
  double \<open>max(...) / 1000\<close>; Python compares a double and an integer by their values.
\<close>

definition MIN_ACCEPTABLE_OPS_PER_SEC :: int where
  "MIN_ACCEPTABLE_OPS_PER_SEC = 2000"

definition MAX_ACCEPTABLE_RESPONSE_TIME :: int where
  "MAX_ACCEPTABLE_RESPONSE_TIME = 2000"

definition sanity_check_with :: "int \<Rightarrow> int \<Rightarrow> stats \<Rightarrow> py_error + unit" where
  "sanity_check_with min_ops max_resp st =
     (case py_min (opspersec st) of
        Inl e \<Rightarrow> Inl e
      | Inr stat1 \<Rightarrow>
          if stat1 < min_ops then Inl (BelowThroughputFloor stat1)
          else
            (case py_max (map fst (resptimes st)) of
               Inl e \<Rightarrow> Inl e
             | Inr m \<Rightarrow>
                 (case true_div m 1000 of
                    Inl e \<Rightarrow> Inl e
                  | Inr stat2 \<Rightarrow>
                      if stat2 > real_of_int max_resp then Inl (AboveLatencyCeiling stat2)
                      else Inr ())))"

definition sanity_check :: "stats \<Rightarrow> py_error + unit" where
  "sanity_check st =
     sanity_check_with MIN_ACCEPTABLE_OPS_PER_SEC MAX_ACCEPTABLE_RESPONSE_TIME st"

section \<open>run_pillowfights\<close>

text \<open>
  \<open>exec_oc_cmd("get pods ... -o json")\<close> returns the parsed JSON document of a pod. An
  object is the list of its members, with distinct keys; a key is looked up with
  \<open>map_of\<close>. The commands themselves are taken to return: a sample is the list of the
  pods found, each with the document returned for it, and \<open>oc_logs\<close> gives the log
  text of a pod.
\<close>

datatype json =
    JNull
  | JBool bool
  | JNum int
  | JStr string
  | JList "json list"
  | JObj "(string \<times> json) list"

text \<open>
  \<open>x[key]\<close> for a string key: KeyError when a dict has no such key, TypeError when
  \<open>x\<close> is not a dict.
\<close>

fun getitem_key :: "json \<Rightarrow> string \<Rightarrow> py_error + json" where
  "getitem_key (JObj kvs) k = (case map_of kvs k of None \<Rightarrow> Inl KeyError | Some v \<Rightarrow> Inr v)"
| "getitem_key _ k = Inl TypeError"

text \<open>
  \<open>x[0]\<close>: IndexError on an empty list or string, KeyError on a dict (the keys of a JSON
  object are strings), TypeError on the other values.
\<close>

fun getitem_0 :: "json \<Rightarrow> py_error + json" where
  "getitem_0 (JList []) = Inl IndexError"
| "getitem_0 (JList (x # xs)) = Inr x"
| "getitem_0 (JStr []) = Inl IndexError"
| "getitem_0 (JStr (c # cs)) = Inr (JStr [c])"
| "getitem_0 (JObj kvs) = Inl KeyError"
| "getitem_0 _ = Inl TypeError"

fun is_substring :: "string \<Rightarrow> string \<Rightarrow> bool" where
  "is_substring p [] = (p = [])"
| "is_substring p (c # cs) = (startswith (c # cs) p \<or> is_substring p cs)"

text \<open>\<open>key in x\<close> for a string key.\<close>

fun contains :: "string \<Rightarrow> json \<Rightarrow> py_error + bool" where
  "contains k (JObj kvs) = Inr (k \<in> set (map fst kvs))"
| "contains k (JList xs) = Inr (JStr k \<in> set xs)"
| "contains k (JStr s) = Inr (is_substring k s)"
| "contains k _ = Inl TypeError"

text \<open>
  Modelled from the spec: \<open>constants.STATUS_COMPLETED\<close> is not among the sources; the
  spec names the reason of a successful instance "Completed".
\<close>

definition STATUS_COMPLETED :: string where
  "STATUS_COMPLETED = ''Completed''"

text \<open>\<open>self.pods_info\<close>: a dictionary from the pod name to the recorded reason.\<close>

type_synonym pods_info = "(string \<times> json) list"

text \<open>\<open>pod_info["status"]["containerStatuses"][0]["state"]\<close>\<close>

definition container_state :: "json \<Rightarrow> py_error + json" where
  "container_state pod_info =
     (case getitem_key pod_info ''status'' of Inl e \<Rightarrow> Inl e | Inr st \<Rightarrow>
      case getitem_key st ''containerStatuses'' of Inl e \<Rightarrow> Inl e | Inr cs \<Rightarrow>
      case getitem_0 cs of Inl e \<Rightarrow> Inl e | Inr c \<Rightarrow>
      getitem_key c ''state'')"

text \<open>
  The body of \<open>for pf_pod in pillowfight_pods\<close>, for a pod name and the document the
  query returns for it. An exception is raised before the body changes anything.
\<close>

definition check_pod :: "string \<times> json \<Rightarrow> int \<times> pods_info \<Rightarrow> py_error + (int \<times> pods_info)" where
  "check_pod p st =
     (case p of (pf_pod, pod_info) \<Rightarrow>
      case st of (counter, pods_info) \<Rightarrow>
      case container_state pod_info of Inl e \<Rightarrow> Inl e | Inr pf_status \<Rightarrow>
      case contains ''terminated'' pf_status of
        Inl e \<Rightarrow> Inl e
      | Inr True \<Rightarrow>
          (case getitem_key pf_status ''terminated'' of Inl e \<Rightarrow> Inl e | Inr t \<Rightarrow>
           case getitem_key t ''reason'' of Inl e \<Rightarrow> Inl e | Inr pf_completion_info \<Rightarrow>
           if pf_completion_info = JStr STATUS_COMPLETED
           then Inr (counter + 1, AList.update pf_pod pf_completion_info pods_info)
           else Inr (counter, pods_info))
      | Inr False \<Rightarrow>
          (case contains ''running'' pf_status of
             Inl e \<Rightarrow> Inl e
           | Inr _ \<Rightarrow> Inr (counter, pods_info)))"

text \<open>
  The loop over the pods of one sample. When a pod raises, the exception leaves the loop
  together with \<open>pods_info\<close> as the pods before it left it.
\<close>

fun pods_loop :: "(string \<times> json) list \<Rightarrow> int \<times> pods_info \<Rightarrow> (py_error \<times> pods_info) + (int \<times> pods_info)" where
  "pods_loop [] st = Inr st"
| "pods_loop (p # ps) st =
     (case check_pod p st of
        Inl e \<Rightarrow> Inl (e, snd st)
      | Inr st' \<Rightarrow> pods_loop ps st')"

datatype outcome = Break pods_info | Continue pods_info | Raise py_error

text \<open>
  The \<open>try\<close> statement of one sample: \<open>counter = 0\<close>, the loop over the pods, the
  \<open>break\<close> when \<open>counter == self.replicas\<close>, and \<open>except IndexError\<close>, which logs and
  goes on to the next sample.
\<close>

definition poll_iteration :: "(string \<times> json) list \<Rightarrow> int \<Rightarrow> pods_info \<Rightarrow> outcome" where
  "poll_iteration pillowfight_pods replicas pods_info =
     (case pods_loop pillowfight_pods (0, pods_info) of
        Inr (counter, pods_info') \<Rightarrow>
          if counter = replicas then Break pods_info' else Continue pods_info'
      | Inl (e, pods_info') \<Rightarrow>
          if e = IndexError then Continue pods_info' else Raise e)"

text \<open>
  Modelled from the spec: \<open>TimeoutSampler\<close> is not among the sources. It yields one
  sample per poll; the list holds the samples it yields before the timeout, each one the
  pods found and the document of each. When they are used up the loop ends with a
  timeout failure.
\<close>

fun sampler_loop :: "(string \<times> json) list list \<Rightarrow> int \<Rightarrow> pods_info \<Rightarrow> py_error + pods_info" where
  "sampler_loop [] replicas pods_info = Inl TimeoutExpiredError"
| "sampler_loop (pillowfight_pods # samples) replicas pods_info =
     (case poll_iteration pillowfight_pods replicas pods_info of
        Break pods_info' \<Rightarrow> Inr pods_info'
      | Continue pods_info' \<Rightarrow> sampler_loop samples replicas pods_info'
      | Raise e \<Rightarrow> Inl e)"

text \<open>
  The loop after the polling, over \<open>self.pods_info.items()\<close>: the log of a completed pod
  is fetched with \<open>oc_logs\<close>, its null bytes are removed and it is written to
  \<open>pod.log\<close>; a pod recorded with "Error" raises.
\<close>

fun fetch_logs :: "(string \<Rightarrow> string) \<Rightarrow> pods_info \<Rightarrow> (string \<times> string) list \<Rightarrow> py_error + (string \<times> string) list" where
  "fetch_logs oc_logs [] files = Inr files"
| "fetch_logs oc_logs ((pod, pf_completion_info) # items) files =
     (if pf_completion_info = JStr ''Completed''
      then fetch_logs oc_logs items
             (AList.update (pod @ ''.log'') (filter (\<lambda>c. c \<noteq> CHR 0x00) (oc_logs pod)) files)
      else if pf_completion_info = JStr ''Error''
      then Inl InstanceRunFailure
      else fetch_logs oc_logs items files)"

text \<open>
  \<open>run_pillowfights\<close> from \<open>self.pods_info = {}\<close> on: the result is \<open>pods_info\<close> and
  the log files written.
\<close>

definition run_pillowfights :: "int \<Rightarrow> (string \<times> json) list list \<Rightarrow> (string \<Rightarrow> string) \<Rightarrow> py_error + (pods_info \<times> (string \<times> string) list)" where
  "run_pillowfights replicas samples oc_logs =
     (case sampler_loop samples replicas [] of
        Inl e \<Rightarrow> Inl e
      | Inr pods_info \<Rightarrow>
          (case fetch_logs oc_logs pods_info [] of
             Inl e \<Rightarrow> Inl e
           | Inr files \<Rightarrow> Inr (pods_info, files)))"

text \<open>
  A pod document whose first container is in the given state, and the three states the
  examples below use.
\<close>

definition pod_with_state :: "json \<Rightarrow> json" where
  "pod_with_state st =
     JObj [(''status'', JObj [(''containerStatuses'', JList [JObj [(''state'', st)]])])]"

definition terminated :: "string \<Rightarrow> json" where
  "terminated reason = JObj [(''terminated'', JObj [(''reason'', JStr reason)])]"

definition running :: json where
  "running = JObj [(''running'', JObj [])]"

text \<open>Every pod recorded in \<open>pods_info\<close> is recorded as completed.\<close>

definition all_completed :: "pods_info \<Rightarrow> bool" where
  "all_completed q = (\<forall>(p, v)\<in>set q. v = JStr STATUS_COMPLETED)"

text \<open>The text of the scenario of the specification, with its two lines.\<close>

definition scenario_text :: string where
  "scenario_text = ''OPS/SEC 1500'' @ [newline] @ ''[0 - 100]us |###| - 5'' @ [newline]"

section \<open>Facts about the string functions\<close>

text \<open>The composition of the five replacements, character by character.\<close>

definition decor :: "char \<Rightarrow> char" where
  "decor c = (if c \<in> set ''[]|-#'' then CHR '' '' else c)"

lemma split_on_nonempty: "split_on sep s \<noteq> []"
  by (induction s) (auto split: list.splits)

lemma index_last_split_on: "index_last (split_on sep s) = Inr (last (split_on sep s))"
  by (simp add: index_last_def split_on_nonempty)

lemma py_int_error: "py_int s = Inl e \<Longrightarrow> e = ValueError"
  by (auto simp: py_int_def split: option.splits)

lemma eat_lit_Some: "eat_lit c s = Some r \<longleftrightarrow> s = c # r"
  by (auto simp: eat_lit_def split: list.splits)

lemma eat_class_Some: "eat_class p s = Some r \<longleftrightarrow> (\<exists>x. s = x # r \<and> p x)"
  by (auto simp: eat_class_def split: list.splits)

lemma eat_star_Some: "eat_star p s = Some r \<Longrightarrow> \<exists>x. s = x @ r \<and> (\<forall>c\<in>set x. p c)"
  by (auto simp: eat_star_def intro!: exI[of _ "takeWhile p s"] dest: set_takeWhileD)

lemma eat_plus_Some:
  "eat_plus p s = Some r \<Longrightarrow> \<exists>x. s = x @ r \<and> x \<noteq> [] \<and> (\<forall>c\<in>set x. p c)"
  by (auto simp: eat_plus_def intro!: exI[of _ "takeWhile p s"] dest: set_takeWhileD split: if_splits)

lemma bucket_re_shape:
  assumes "bucket_re_match s"
  obtains d1 sp1 d2 sp2 u hs d3 r where
    "s = ''['' @ d1 @ sp1 @ ''- '' @ d2 @ sp2 @ '']'' @ [u] @ ''s |'' @ hs @ '' - '' @ d3 @ r"
    "d1 \<noteq> []" "\<forall>c\<in>set d1. is_digit c"
    "sp1 \<noteq> []" "\<forall>c\<in>set sp1. c = CHR '' ''"
    "d2 \<noteq> []" "\<forall>c\<in>set d2. is_digit c"
    "\<forall>c\<in>set sp2. c = CHR '' ''"
    "u = CHR ''u'' \<or> u = CHR ''m''"
    "\<forall>c\<in>set hs. c = CHR ''#''"
    "d3 \<noteq> []" "\<forall>c\<in>set d3. is_digit c"
proof -
  from assms obtain r where "bucket_re_rest s = Some r"
    by (auto simp: bucket_re_match_def)
  then obtain s1 s2 s3 s6 s7 s13 where
    a: "s = CHR ''['' # s1" "eat_plus is_digit s1 = Some s2"
       "eat_plus (\<lambda>c. c = CHR '' '') s2 = Some (CHR ''-'' # CHR '' '' # s3)"
       "eat_plus is_digit s3 = Some s6"
       "eat_star (\<lambda>c. c = CHR '' '') s6 = Some (CHR '']'' # s7)"
    and b: "\<exists>u. s7 = u # CHR ''s'' # CHR '' '' # CHR ''|'' # s13 \<and> (u = CHR ''u'' \<or> u = CHR ''m'')"
    and c: "\<exists>s14. eat_star (\<lambda>c. c = CHR ''#'') s13 = Some (CHR '' '' # CHR ''-'' # CHR '' '' # s14)
          \<and> eat_plus is_digit s14 = Some r"
    unfolding bucket_re_rest_def bind_eq_Some_conv eat_lit_Some eat_class_Some
    by blast
  from b obtain u where u: "s7 = u # CHR ''s'' # CHR '' '' # CHR ''|'' # s13" "u = CHR ''u'' \<or> u = CHR ''m''"
    by blast
  from c obtain s14 where s14: "eat_star (\<lambda>c. c = CHR ''#'') s13 = Some (CHR '' '' # CHR ''-'' # CHR '' '' # s14)"
     "eat_plus is_digit s14 = Some r" by blast
  from eat_plus_Some[OF a(2)] obtain d1 where d1: "s1 = d1 @ s2" "d1 \<noteq> []" "\<forall>c\<in>set d1. is_digit c" by blast
  from eat_plus_Some[OF a(3)] obtain sp1 where sp1: "s2 = sp1 @ CHR ''-'' # CHR '' '' # s3" "sp1 \<noteq> []" "\<forall>c\<in>set sp1. c = CHR '' ''" by blast
  from eat_plus_Some[OF a(4)] obtain d2 where d2: "s3 = d2 @ s6" "d2 \<noteq> []" "\<forall>c\<in>set d2. is_digit c" by blast
  from eat_star_Some[OF a(5)] obtain sp2 where sp2: "s6 = sp2 @ CHR '']'' # s7" "\<forall>c\<in>set sp2. c = CHR '' ''" by blast
  from eat_star_Some[OF s14(1)] obtain hs where hs: "s13 = hs @ CHR '' '' # CHR ''-'' # CHR '' '' # s14" "\<forall>c\<in>set hs. c = CHR ''#''" by blast
  from eat_plus_Some[OF s14(2)] obtain d3 where d3: "s14 = d3 @ r" "d3 \<noteq> []" "\<forall>c\<in>set d3. is_digit c" by blast
  have "s = ''['' @ d1 @ sp1 @ ''- '' @ d2 @ sp2 @ '']'' @ [u] @ ''s |'' @ hs @ '' - '' @ d3 @ r"
    using a(1) d1(1) sp1(1) d2(1) sp2(1) u(1) hs(1) d3(1) by simp
  from that[OF this d1(2,3) sp1(2,3) d2(2,3) sp2(2) u(2) hs(2) d3(2,3)] show thesis .
qed

lemma strip_decor_map: "strip_decor s = map decor s"
  by (simp add: strip_decor_def replace_char_def decor_def)

lemma is_space_blank: "is_space CHR '' ''"
  by (simp add: is_space_def)

lemma digit_not_space: "is_digit c \<Longrightarrow> \<not> is_space c"
  by (auto simp: is_digit_def is_space_def)

lemma decor_digit: "is_digit c \<Longrightarrow> decor c = c"
  by (auto simp: is_digit_def decor_def)

lemma map_decor_digits: "\<forall>c\<in>set d. is_digit c \<Longrightarrow> map decor d = d"
  by (induction d) (auto simp: decor_digit)

lemma split_ws_acc_token:
  "\<forall>c\<in>set tok. \<not> is_space c \<Longrightarrow> split_ws_acc cur (tok @ r) = split_ws_acc (cur @ tok) r"
  by (induction tok arbitrary: cur) auto

lemma split_ws_acc_spaces:
  "\<forall>c\<in>set ws. is_space c \<Longrightarrow> split_ws_acc [] (ws @ r) = split_ws_acc [] r"
  by (induction ws) auto

lemma split_ws_acc_word:
  assumes "tok \<noteq> []" "\<forall>c\<in>set tok. \<not> is_space c" "ws \<noteq> []" "\<forall>c\<in>set ws. is_space c"
  shows "split_ws_acc [] (tok @ ws @ r) = tok # split_ws_acc [] r"
proof -
  from assms(3) obtain w ws' where ws: "ws = w # ws'" by (cases ws) auto
  have "split_ws_acc [] (tok @ ws @ r) = split_ws_acc tok (w # ws' @ r)"
    using split_ws_acc_token[OF assms(2), of "[]"] ws by simp
  also have "\<dots> = tok # split_ws_acc [] (ws' @ r)"
    using assms(1,4) ws by simp
  also have "split_ws_acc [] (ws' @ r) = split_ws_acc [] r"
    using assms(4) ws by (intro split_ws_acc_spaces) simp
  finally show ?thesis .
qed

lemma split_ws_acc_head:
  "cur \<noteq> [] \<Longrightarrow> \<exists>t more. split_ws_acc cur r = (cur @ t) # more"
proof (induction r arbitrary: cur)
  case Nil
  then show ?case by simp
next
  case (Cons c r)
  show ?case
  proof (cases "is_space c")
    case True
    with Cons.prems show ?thesis by simp
  next
    case False
    from Cons.IH[of "cur @ [c]"] obtain t more where "split_ws_acc (cur @ [c]) r = ((cur @ [c]) @ t) # more"
      by auto
    with False show ?thesis by simp
  qed
qed

lemma decor_simps:
  "decor CHR ''['' = CHR '' ''" "decor CHR '']'' = CHR '' ''" "decor CHR ''|'' = CHR '' ''"
  "decor CHR ''-'' = CHR '' ''" "decor CHR ''#'' = CHR '' ''" "decor CHR '' '' = CHR '' ''"
  "decor CHR ''u'' = CHR ''u''" "decor CHR ''m'' = CHR ''m''" "decor CHR ''s'' = CHR ''s''"
  by (simp_all add: decor_def)

lemma decor_blank: "c = CHR '' '' \<or> c = CHR ''#'' \<Longrightarrow> is_space (decor c)"
  by (erule disjE) (simp_all add: decor_simps is_space_blank)

lemma decor_blank_run:
  "\<forall>c\<in>set xs. c = CHR '' '' \<or> c = CHR ''#'' \<Longrightarrow> \<forall>c\<in>set (map decor xs). is_space c"
  using decor_blank by auto

lemma us_not_space: "u = CHR ''u'' \<or> u = CHR ''m'' \<Longrightarrow> \<forall>c\<in>set [u, CHR ''s'']. \<not> is_space c"
  by (auto simp: is_space_def)

lemma bucket_parts:
  assumes "bucket_re_match s"
  obtains d1 d2 u p3 more where
    "split_ws (strip_decor s) = d1 # d2 # [u, CHR ''s''] # p3 # more"
    "d1 \<noteq> []" "\<forall>c\<in>set d1. is_digit c"
    "d2 \<noteq> []" "\<forall>c\<in>set d2. is_digit c"
    "u = CHR ''u'' \<or> u = CHR ''m''"
proof -
  from bucket_re_shape[OF assms] obtain d1 sp1 d2 sp2 u hs d3 r where
    s: "s = ''['' @ d1 @ sp1 @ ''- '' @ d2 @ sp2 @ '']'' @ [u] @ ''s |'' @ hs @ '' - '' @ d3 @ r"
    and d1: "d1 \<noteq> []" "\<forall>c\<in>set d1. is_digit c"
    and sp1: "sp1 \<noteq> []" "\<forall>c\<in>set sp1. c = CHR '' ''"
    and d2: "d2 \<noteq> []" "\<forall>c\<in>set d2. is_digit c"
    and sp2: "\<forall>c\<in>set sp2. c = CHR '' ''"
    and u: "u = CHR ''u'' \<or> u = CHR ''m''"
    and hs: "\<forall>c\<in>set hs. c = CHR ''#''"
    and d3: "d3 \<noteq> []" "\<forall>c\<in>set d3. is_digit c"
    by this
  define w1 where "w1 = map decor sp1 @ ''  ''"
  define w2 where "w2 = map decor sp2 @ '' ''"
  define w3 where "w3 = ''  '' @ map decor hs @ ''   ''"
  define us where "us = [u, CHR ''s'']"
  have b1: "\<forall>c\<in>set (map decor sp1). is_space c"
    by (rule decor_blank_run) (use sp1 in blast)
  have b2: "\<forall>c\<in>set (map decor sp2). is_space c"
    by (rule decor_blank_run) (use sp2 in blast)
  have b3: "\<forall>c\<in>set (map decor hs). is_space c"
    by (rule decor_blank_run) (use hs in blast)
  have w1: "w1 \<noteq> []" "\<forall>c\<in>set w1. is_space c"
    using b1 by (simp_all add: w1_def is_space_blank)
  have w2: "w2 \<noteq> []" "\<forall>c\<in>set w2. is_space c"
    using b2 by (simp_all add: w2_def is_space_blank)
  have w3: "w3 \<noteq> []" "\<forall>c\<in>set w3. is_space c"
    using b3 by (simp_all add: w3_def is_space_blank)
  have us: "us \<noteq> []" "\<forall>c\<in>set us. \<not> is_space c"
    using us_not_space[OF u] by (simp_all add: us_def)
  have n1: "\<forall>c\<in>set d1. \<not> is_space c" and n2: "\<forall>c\<in>set d2. \<not> is_space c"
    and n3: "\<forall>c\<in>set d3. \<not> is_space c"
    using d1 d2 d3 by (blast dest: digit_not_space)+
  have du: "decor u = u" using u by (auto simp: decor_simps)
  have "strip_decor s = '' '' @ d1 @ w1 @ d2 @ w2 @ us @ w3 @ d3 @ map decor r"
    unfolding s strip_decor_map w1_def w2_def w3_def us_def
    by (simp add: map_decor_digits[OF d1(2)] map_decor_digits[OF d2(2)]
        map_decor_digits[OF d3(2)] du decor_simps)
  then have p0: "split_ws (strip_decor s) = split_ws_acc [] (d1 @ w1 @ d2 @ w2 @ us @ w3 @ d3 @ map decor r)"
    by (simp add: split_ws_def is_space_blank)
  have p1: "split_ws_acc [] (d1 @ w1 @ d2 @ w2 @ us @ w3 @ d3 @ map decor r)
      = d1 # split_ws_acc [] (d2 @ w2 @ us @ w3 @ d3 @ map decor r)"
    by (rule split_ws_acc_word[OF d1(1) n1 w1])
  have p2: "split_ws_acc [] (d2 @ w2 @ us @ w3 @ d3 @ map decor r)
      = d2 # split_ws_acc [] (us @ w3 @ d3 @ map decor r)"
    by (rule split_ws_acc_word[OF d2(1) n2 w2])
  have p3: "split_ws_acc [] (us @ w3 @ d3 @ map decor r) = us # split_ws_acc [] (d3 @ map decor r)"
    by (rule split_ws_acc_word[OF us w3])
  have p4: "split_ws_acc [] (d3 @ map decor r) = split_ws_acc d3 (map decor r)"
    using split_ws_acc_token[OF n3, of "[]"] by simp
  have parts: "split_ws (strip_decor s) = d1 # d2 # us # split_ws_acc d3 (map decor r)"
    by (simp only: p0 p1 p2 p3 p4)
  from split_ws_acc_head[OF d3(1)] obtain t more where
    "split_ws_acc d3 (map decor r) = (d3 @ t) # more" by blast
  with parts have "split_ws (strip_decor s) = d1 # d2 # [u, CHR ''s''] # (d3 @ t) # more"
    by (simp add: us_def)
  from that[OF this d1 d2 u] show thesis .
qed

section \<open>Facts about parse_pillowfight_log\<close>

lemma bucket_line_error: "bucket_line l = Inl e \<Longrightarrow> e = ValueError"
proof (cases "bucket_re_match l")
  case False
  assume "bucket_line l = Inl e"
  with False show ?thesis by (simp add: bucket_line_def)
next
  case True
  assume a: "bucket_line l = Inl e"
  from bucket_parts[OF True] obtain d1 d2 u p3 more where
    p: "split_ws (strip_decor l) = d1 # d2 # [u, CHR ''s''] # p3 # more" by metis
  from a True show ?thesis
    unfolding bucket_line_def p
    by (auto simp: index_def Let_def split: sum.splits prod.splits dest: py_int_error)
qed

lemma bucket_line_Some:
  "bucket_line l = Inr (Some (k, b)) \<longleftrightarrow>
     bucket_re_match l \<and>
     (\<exists>lo hi n. py_int (split_ws (strip_decor l) ! 0) = Inr lo
        \<and> py_int (split_ws (strip_decor l) ! 1) = Inr hi
        \<and> py_int (split_ws (strip_decor l) ! 3) = Inr n
        \<and> k = (if split_ws (strip_decor l) ! 2 = ''ms'' then hi * 1000 else hi)
        \<and> b = \<lparr>minindx = (if split_ws (strip_decor l) ! 2 = ''ms'' then lo * 1000 else lo),
                number = n\<rparr>)"
proof (cases "bucket_re_match l")
  case False
  then show ?thesis by (simp add: bucket_line_def)
next
  case True
  from bucket_parts[OF True] obtain d1 d2 u p3 more where
    p: "split_ws (strip_decor l) = d1 # d2 # [u, CHR ''s''] # p3 # more" by metis
  from True show ?thesis
    unfolding bucket_line_def p
    by (auto simp: index_def Let_def split: sum.splits prod.splits)
qed

lemma ops_line_error: "ops_line l ops = Inl e \<Longrightarrow> e = ValueError"
  by (auto simp: ops_line_def index_last_split_on split: if_splits sum.splits dest: py_int_error)

lemma hist_line_error: "hist_line l h = Inl e \<Longrightarrow> e = ValueError"
  by (auto simp: hist_line_def split: sum.splits option.splits dest: bucket_line_error)

lemma parse_line_total: "\<exists>st'. parse_line l st = Inr st'"
  by (auto simp: parse_line_def handler_def split: sum.splits dest: ops_line_error hist_line_error)

lemma ops_line_no_bucket: "startswith l ''OPS/SEC'' \<Longrightarrow> bucket_line l = Inr None"
  by (cases l) (auto simp: bucket_line_def bucket_re_match_def bucket_re_rest_def eat_lit_def)

lemma ops_line_raises: "ops_line l ops = Inl e \<Longrightarrow> startswith l ''OPS/SEC''"
  by (auto simp: ops_line_def split: if_splits)

lemma parse_line_resptimes:
  "parse_line l st = Inr st' \<Longrightarrow>
   resptimes st' = (case bucket_line l of
                      Inr (Some (k, b)) \<Rightarrow> AList.update k b (resptimes st)
                    | _ \<Rightarrow> resptimes st)"
  by (auto simp: parse_line_def handler_def hist_line_def
      split: sum.splits option.splits if_splits
      dest!: ops_line_raises ops_line_no_bucket)

lemma parse_lines_total: "\<exists>r. parse_lines ls st = Inr r"
proof (induction ls arbitrary: st)
  case Nil
  show ?case by simp
next
  case (Cons l ls)
  from parse_line_total obtain st' where "parse_line l st = Inr st'" by blast
  with Cons.IH[of st'] show ?case by simp
qed

lemma parse_lines_append:
  "parse_lines (xs @ ys) st =
     (case parse_lines xs st of Inl e \<Rightarrow> Inl e | Inr st' \<Rightarrow> parse_lines ys st')"
  by (induction xs arbitrary: st) (auto split: sum.splits)

lemma parse_line_stores:
  "parse_line l st = Inr st' \<Longrightarrow> bucket_line l = Inr (Some (k, b)) \<Longrightarrow>
   map_of (resptimes st') k = Some b"
  by (simp add: parse_line_resptimes update_conv')

lemma parse_line_keeps:
  "parse_line l st = Inr st' \<Longrightarrow> \<forall>b. bucket_line l \<noteq> Inr (Some (k, b)) \<Longrightarrow>
   map_of (resptimes st') k = map_of (resptimes st) k"
  by (auto simp: parse_line_resptimes update_conv' split: sum.splits option.splits)

lemma parse_lines_keeps:
  "parse_lines ls st = Inr r \<Longrightarrow> \<forall>l\<in>set ls. \<forall>b. bucket_line l \<noteq> Inr (Some (k, b)) \<Longrightarrow>
   map_of (resptimes r) k = map_of (resptimes st) k"
proof (induction ls arbitrary: st)
  case Nil
  then show ?case by simp
next
  case (Cons l ls)
  from parse_line_total obtain st' where st': "parse_line l st = Inr st'" by blast
  with Cons.prems(1) have "parse_lines ls st' = Inr r" by simp
  with Cons.IH[of st'] Cons.prems(2) have "map_of (resptimes r) k = map_of (resptimes st') k"
    by simp
  also have "\<dots> = map_of (resptimes st) k"
    using parse_line_keeps[OF st'] Cons.prems(2) by simp
  finally show ?case .
qed

lemma parse_lines_provenance:
  "parse_lines ls st = Inr r \<Longrightarrow> map_of (resptimes r) k = Some b \<Longrightarrow>
   map_of (resptimes st) k = Some b \<or> (\<exists>l\<in>set ls. bucket_line l = Inr (Some (k, b)))"
proof (induction ls arbitrary: st)
  case Nil
  then show ?case by simp
next
  case (Cons l ls)
  from parse_line_total obtain st' where st': "parse_line l st = Inr st'" by blast
  with Cons.prems(1) have r: "parse_lines ls st' = Inr r" by simp
  from Cons.IH[OF r Cons.prems(2)] show ?case
  proof
    assume m: "map_of (resptimes st') k = Some b"
    show ?thesis
    proof (cases "\<exists>b'. bucket_line l = Inr (Some (k, b'))")
      case True
      then obtain b' where b': "bucket_line l = Inr (Some (k, b'))" by blast
      from parse_line_stores[OF st' b'] m have "b' = b" by simp
      with b' show ?thesis by simp
    next
      case False
      with parse_line_keeps[OF st', of k] m show ?thesis by simp
    qed
  next
    assume "\<exists>l\<in>set ls. bucket_line l = Inr (Some (k, b))"
    then show ?thesis by auto
  qed
qed

lemma parse_lines_last_write:
  assumes "bucket_line l = Inr (Some (k, b))"
      and "\<forall>l'\<in>set post. \<forall>b'. bucket_line l' \<noteq> Inr (Some (k, b'))"
  shows "\<exists>r. parse_lines (pre @ l # post) st = Inr r \<and> map_of (resptimes r) k = Some b"
proof -
  from parse_lines_total obtain st1 where st1: "parse_lines pre st = Inr st1" by blast
  from parse_line_total obtain st2 where st2: "parse_line l st1 = Inr st2" by blast
  from parse_lines_total obtain r where r: "parse_lines post st2 = Inr r" by blast
  have "parse_lines (pre @ l # post) st = Inr r"
    using st1 st2 r by (simp add: parse_lines_append)
  moreover have "map_of (resptimes r) k = Some b"
    using parse_lines_keeps[OF r assms(2)] parse_line_stores[OF st2 assms(1)] by simp
  ultimately show ?thesis by blast
qed

lemma parse_pillowfight_log_total: "\<exists>r. parse_pillowfight_log text = Inr r"
  unfolding parse_pillowfight_log_def by (rule parse_lines_total)


lemmas eval_defs = parse_pillowfight_log_def newline_def parse_line_def ops_line_def hist_line_def
  bucket_line_def bucket_re_match_def bucket_re_rest_def eat_lit_def eat_plus_def eat_star_def
  eat_class_def is_digit_def index_last_def index_def py_int_def strip_def is_space_def
  parse_digits_def digit_val_def handler_def strip_decor_def replace_char_def split_ws_def

lemma bucket_line_unit:
  assumes "bucket_re_match l"
  shows "split_ws (strip_decor l) ! 2 = ''ms'' \<or> split_ws (strip_decor l) ! 2 = ''us''"
proof -
  from bucket_parts[OF assms] obtain d1 d2 u p3 more where
    "split_ws (strip_decor l) = d1 # d2 # [u, CHR ''s''] # p3 # more"
    "u = CHR ''u'' \<or> u = CHR ''m''" by metis
  then show ?thesis by auto
qed

lemma parse_line_key_stays:
  "parse_line l st = Inr st' \<Longrightarrow> map_of (resptimes st) k = Some b \<Longrightarrow>
   \<exists>b'. map_of (resptimes st') k = Some b'"
  by (auto simp: parse_line_resptimes update_conv' split: sum.splits option.splits)

lemma parse_lines_key_stays:
  "parse_lines ls st = Inr r \<Longrightarrow> map_of (resptimes st) k = Some b \<Longrightarrow>
   \<exists>b'. map_of (resptimes r) k = Some b'"
proof (induction ls arbitrary: st b)
  case Nil
  then show ?case by simp
next
  case (Cons l ls)
  from parse_line_total obtain st' where st': "parse_line l st = Inr st'" by blast
  with Cons.prems(1) have r: "parse_lines ls st' = Inr r" by simp
  from parse_line_key_stays[OF st' Cons.prems(2)] obtain b' where
    "map_of (resptimes st') k = Some b'" by blast
  from Cons.IH[OF r this] show ?case .
qed

lemma parse_lines_key_stored:
  assumes "bucket_line l = Inr (Some (k, b))"
      and "parse_lines (pre @ l # post) st = Inr r"
  shows "\<exists>b'. map_of (resptimes r) k = Some b'"
proof -
  from parse_lines_total obtain st1 where st1: "parse_lines pre st = Inr st1" by blast
  from parse_line_total obtain st2 where st2: "parse_line l st1 = Inr st2" by blast
  from assms(2) st1 st2 have r: "parse_lines post st2 = Inr r"
    by (simp add: parse_lines_append)
  from parse_lines_key_stays[OF r parse_line_stores[OF st2 assms(1)]] show ?thesis .
qed

lemma py_min_Min: "xs \<noteq> [] \<Longrightarrow> py_min xs = Inr (Min (set xs))"
  using Min.set_eq_fold[of "hd xs" "tl xs"] by (cases xs) (simp_all add: py_min_def)

lemma py_max_Max: "xs \<noteq> [] \<Longrightarrow> py_max xs = Inr (Max (set xs))"
  using Max.set_eq_fold[of "hd xs" "tl xs"] by (cases xs) (simp_all add: py_max_def)

section \<open>Facts about the division\<close>

lemma round_half_even_error:
  assumes "0 < d"
  shows "2 * \<bar>round_half_even n d * d - n\<bar> \<le> d"
proof -
  define q where "q = n div d"
  define r where "r = n mod d"
  have n: "n = q * d + r" by (simp add: q_def r_def)
  have r: "0 \<le> r" "r < d" using assms by (simp_all add: r_def)
  have "round_half_even n d = q \<and> 2 * r \<le> d \<or> round_half_even n d = q + 1 \<and> d \<le> 2 * r"
    by (auto simp: round_half_even_def Let_def q_def r_def)
  then show ?thesis
  proof
    assume a: "round_half_even n d = q \<and> 2 * r \<le> d"
    then have "round_half_even n d * d - n = - r" by (simp add: n)
    with a r show ?thesis by simp
  next
    assume a: "round_half_even n d = q + 1 \<and> d \<le> 2 * r"
    then have "round_half_even n d * d - n = d - r" by (simp add: n algebra_simps)
    with a r show ?thesis by simp
  qed
qed

lemma round_half_even_exact:
  assumes "0 < d" "d dvd n"
  shows "round_half_even n d = n div d"
  using assms by (simp add: round_half_even_def Let_def)

lemma floor_log2_le: "floor_log2 n d \<le> bitlen n - bitlen d"
  by (simp add: floor_log2_def Let_def)

lemma bitlen_1000: "bitlen 1000 = 10"
  by code_simp

lemma true_div_1000_small:
  assumes "0 < m" "m < 2 ^ 52"
  obtains k where "10 \<le> k"
    "true_div m 1000 = Inr (real_of_int (round_half_even (m * 2 ^ k) 1000) / 2 ^ k)"
proof -
  define e where "e = max (floor_log2 m 1000 - 52) (- 1074)"
  have "bitlen m \<le> 52" using assms(2) by (simp add: bitlen_le_iff_power)
  with floor_log2_le[of m 1000] have "floor_log2 m 1000 \<le> 42"
    by (simp add: bitlen_1000)
  then have e: "e \<le> - 10" by (simp add: e_def)
  define k where "k = nat (- e)"
  from e have k: "10 \<le> k" by (simp add: k_def)
  have "true_div m 1000 = Inr (real_of_int (round_half_even (m * 2 ^ k) 1000) / 2 ^ k)"
    using assms(1) e
    by (simp add: true_div_def Let_def scale2_def e_def[symmetric] k_def[symmetric])
  with k show thesis by (rule that)
qed

lemma true_div_1000_compare:
  assumes "0 \<le> m" "m < 2 ^ 52"
  shows "\<exists>v. true_div m 1000 = Inr v \<and> \<bar>v - real_of_int m / 1000\<bar> \<le> 1 / 2048
           \<and> (\<forall>c::int. real_of_int c < v \<longleftrightarrow> 1000 * c < m)"
proof (cases "m = 0")
  case True
  then show ?thesis by (simp add: true_div_def)
next
  case False
  with assms(1) have pos: "0 < m" by simp
  from true_div_1000_small[OF pos assms(2)] obtain k where k: "10 \<le> k"
    and v: "true_div m 1000 = Inr (real_of_int (round_half_even (m * 2 ^ k) 1000) / 2 ^ k)"
    by blast
  define M where "M = round_half_even (m * 2 ^ k) 1000"
  define v where "v = real_of_int M / 2 ^ k"
  have err: "2 * \<bar>M * 1000 - m * 2 ^ k\<bar> \<le> 1000"
    unfolding M_def by (rule round_half_even_error) simp
  have p2: "(2::real) ^ 11 \<le> 2 * 2 ^ k"
  proof -
    have "(2::real) ^ 10 \<le> 2 ^ k" using k by (intro power_increasing) simp_all
    then show ?thesis by simp
  qed
  have pk: "(0::real) < 2 ^ k" by simp
  have "\<bar>v - real_of_int m / 1000\<bar> = \<bar>real_of_int (M * 1000 - m * 2 ^ k)\<bar> / (1000 * 2 ^ k)"
    by (simp add: v_def field_simps abs_divide)
  also have "\<dots> \<le> 500 / (1000 * 2 ^ k)"
  proof -
    from err have "\<bar>M * 1000 - m * 2 ^ k\<bar> \<le> 500" by simp
    then have "\<bar>real_of_int (M * 1000 - m * 2 ^ k)\<bar> \<le> 500"
      by (metis of_int_abs of_int_le_iff of_int_numeral)
    then show ?thesis by (intro divide_right_mono) simp_all
  qed
  also have "\<dots> = 1 / (2 * 2 ^ k)" by simp
  also have "\<dots> \<le> 1 / 2 ^ 11"
    using p2 by (intro divide_left_mono) simp_all
  finally have bound: "\<bar>v - real_of_int m / 1000\<bar> \<le> 1 / 2048" by simp
  have cmp: "real_of_int c < v \<longleftrightarrow> 1000 * c < m" for c :: int
  proof (cases "1000 * c < m")
    case True
    then have "1000 * c + 1 \<le> m" by simp
    then have "real_of_int (1000 * c + 1) \<le> real_of_int m" by (simp only: of_int_le_iff)
    then have "real_of_int c + 1 / 1000 \<le> real_of_int m / 1000" by simp
    with bound have "real_of_int c < v" by linarith
    with True show ?thesis by simp
  next
    case False
    show ?thesis
    proof (cases "m = 1000 * c")
      case True
      then have "M = c * 2 ^ k"
        unfolding M_def by (simp add: round_half_even_exact)
      then have "v = real_of_int c" by (simp add: v_def)
      with False show ?thesis by simp
    next
      case neq: False
      with False have "m \<le> 1000 * c - 1" by simp
      then have "real_of_int m \<le> real_of_int (1000 * c - 1)" by (simp only: of_int_le_iff)
      then have "real_of_int m / 1000 \<le> real_of_int c - 1 / 1000" by simp
      with bound have "v < real_of_int c" by linarith
      with False show ?thesis by simp
    qed
  qed
  from v bound cmp show ?thesis
    unfolding M_def[symmetric] v_def[symmetric] by blast
qed

section \<open>Facts about run_pillowfights\<close>

lemma set_update_subset: "set (AList.update k v al) \<subseteq> insert (k, v) (set al)"
  by (induction al) auto

lemma check_pod_completed:
  "check_pod p (c, q) = Inr (c', q') \<Longrightarrow> all_completed q \<Longrightarrow> all_completed q'"
  using set_update_subset
  by (fastforce simp: check_pod_def all_completed_def split: prod.splits sum.splits bool.splits if_splits)

lemma pods_loop_completed:
  "pods_loop ps (c, q) = Inr (c', q') \<Longrightarrow> all_completed q \<Longrightarrow> all_completed q'"
proof (induction ps arbitrary: c q)
  case Nil
  then show ?case by simp
next
  case (Cons p ps)
  from Cons.prems(1) obtain c1 q1 where s: "check_pod p (c, q) = Inr (c1, q1)"
    "pods_loop ps (c1, q1) = Inr (c', q')"
    by (auto split: sum.splits)
  from Cons.IH[OF s(2) check_pod_completed[OF s(1) Cons.prems(2)]] show ?case .
qed

lemma pods_loop_error_completed:
  "pods_loop ps (c, q) = Inl (e, q') \<Longrightarrow> all_completed q \<Longrightarrow> all_completed q'"
proof (induction ps arbitrary: c q)
  case Nil
  then show ?case by simp
next
  case (Cons p ps)
  show ?case
  proof (cases "check_pod p (c, q)")
    case (Inl e')
    with Cons.prems show ?thesis by simp
  next
    case (Inr st)
    obtain c1 q1 where st: "st = (c1, q1)" by (cases st)
    from Inr st Cons.prems(1) have "pods_loop ps (c1, q1) = Inl (e, q')" by simp
    from Cons.IH[OF this check_pod_completed[OF Inr[unfolded st] Cons.prems(2)]] show ?thesis .
  qed
qed



lemma poll_iteration_completed:
  assumes "all_completed q"
  shows "poll_iteration ps replicas q = Break q' \<Longrightarrow> all_completed q'"
    and "poll_iteration ps replicas q = Continue q' \<Longrightarrow> all_completed q'"
  using assms pods_loop_completed[of ps 0 q] pods_loop_error_completed[of ps 0 q]
  by (auto simp: poll_iteration_def split: sum.splits prod.splits if_splits)

lemma poll_iteration_no_index_error: "poll_iteration ps replicas q \<noteq> Raise IndexError"
  by (auto simp: poll_iteration_def split: sum.splits prod.splits)

lemma getitem_key_error: "getitem_key j s = Inl e \<Longrightarrow> e = KeyError \<or> e = TypeError"
  by (cases j) (auto split: option.splits)

lemma getitem_0_error:
  "getitem_0 j = Inl e \<Longrightarrow> e = IndexError \<or> e = KeyError \<or> e = TypeError"
  by (cases j rule: getitem_0.cases) auto

lemma contains_error: "contains s j = Inl e \<Longrightarrow> e = TypeError"
  by (cases j) simp_all

lemma container_state_error:
  "container_state j = Inl e \<Longrightarrow> e = IndexError \<or> e = KeyError \<or> e = TypeError"
  unfolding container_state_def
  by (auto split: sum.splits dest: getitem_key_error getitem_0_error)

lemma check_pod_error:
  assumes "check_pod p st = Inl e"
  shows "e = IndexError \<or> e = KeyError \<or> e = TypeError"
proof -
  obtain pf_pod pod_info where p: "p = (pf_pod, pod_info)" by (cases p)
  obtain counter q where st: "st = (counter, q)" by (cases st)
  show ?thesis
  proof (cases "container_state pod_info")
    case (Inl e')
    with assms p st have "e = e'" by (simp add: check_pod_def)
    with container_state_error[OF Inl] show ?thesis by simp
  next
    case (Inr pf_status)
    show ?thesis
    proof (cases "contains ''terminated'' pf_status")
      case (Inl e')
      with assms p st Inr have "e = e'" by (simp add: check_pod_def)
      with contains_error[OF Inl] show ?thesis by simp
    next
      case t: (Inr b)
      show ?thesis
      proof (cases b)
        case True
        with assms p st Inr t have
          "(case getitem_key pf_status ''terminated'' of Inl e \<Rightarrow> Inl e | Inr t \<Rightarrow>
             case getitem_key t ''reason'' of Inl e \<Rightarrow> Inl e | Inr pf_completion_info \<Rightarrow>
             if pf_completion_info = JStr STATUS_COMPLETED
             then Inr (counter + 1, AList.update pf_pod pf_completion_info q)
             else Inr (counter, q)) = Inl e"
          by (simp add: check_pod_def)
        then show ?thesis
          by (auto split: sum.splits if_splits dest: getitem_key_error)
      next
        case False
        with assms p st Inr t have
          "(case contains ''running'' pf_status of Inl e \<Rightarrow> Inl e
            | Inr _ \<Rightarrow> Inr (counter, q)) = Inl e"
          by (simp add: check_pod_def)
        then show ?thesis
          by (auto split: sum.splits dest: contains_error)
      qed
    qed
  qed
qed

lemma check_pod_no_failure: "check_pod p st \<noteq> Inl InstanceRunFailure"
  using check_pod_error[of p st InstanceRunFailure] by auto

lemma pods_loop_no_failure: "pods_loop ps st \<noteq> Inl (InstanceRunFailure, q')"
proof (induction ps arbitrary: st)
  case Nil
  show ?case by simp
next
  case (Cons p ps)
  with check_pod_no_failure[of p st] show ?case
    by (auto split: sum.splits)
qed

lemma poll_iteration_no_failure: "poll_iteration ps replicas q \<noteq> Raise InstanceRunFailure"
  using pods_loop_no_failure[of ps "(0, q)"]
  by (auto simp: poll_iteration_def split: sum.splits prod.splits)

lemma sampler_loop_completed:
  "sampler_loop samples replicas q = Inr q' \<Longrightarrow> all_completed q \<Longrightarrow> all_completed q'"
proof (induction samples arbitrary: q)
  case Nil
  then show ?case by simp
next
  case (Cons ps samples)
  show ?case
  proof (cases "poll_iteration ps replicas q")
    case (Break q1)
    with Cons.prems(1) have "q' = q1" by simp
    with poll_iteration_completed(1)[OF Cons.prems(2) Break] show ?thesis by simp
  next
    case (Continue q1)
    with Cons.prems(1) have "sampler_loop samples replicas q1 = Inr q'" by simp
    from Cons.IH[OF this poll_iteration_completed(2)[OF Cons.prems(2) Continue]]
    show ?thesis .
  next
    case (Raise e)
    with Cons.prems(1) show ?thesis by simp
  qed
qed

lemma sampler_loop_errors:
  "sampler_loop samples replicas q \<noteq> Inl IndexError"
  "sampler_loop samples replicas q \<noteq> Inl InstanceRunFailure"
proof (induction samples arbitrary: q)
  case Nil
  { case 1 show ?case by simp }
  { case 2 show ?case by simp }
next
  case (Cons ps samples)
  { case 1
    with Cons.IH(1) poll_iteration_no_index_error[of ps replicas q] show ?case
      by (auto split: outcome.splits) }
  { case 2
    with Cons.IH(2) poll_iteration_no_failure[of ps replicas q] show ?case
      by (auto split: outcome.splits) }
qed

lemma fetch_logs_completed:
  "all_completed q \<Longrightarrow> \<exists>files'. fetch_logs oc_logs q files = Inr files'"
proof (induction q arbitrary: files)
  case Nil
  show ?case by simp
next
  case (Cons x q)
  obtain pod v where x: "x = (pod, v)" by (cases x)
  from Cons.prems x have v: "v = JStr ''Completed''" and q: "all_completed q"
    by (auto simp: all_completed_def STATUS_COMPLETED_def)
  from Cons.IH[OF q] x v show ?case by simp
qed


lemma run_never_instance_run_failure:
  "run_pillowfights replicas samples oc_logs \<noteq> Inl InstanceRunFailure"
proof (cases "sampler_loop samples replicas []")
  case (Inl e)
  with sampler_loop_errors(2)[of samples replicas "[]"] show ?thesis
    by (simp add: run_pillowfights_def)
next
  case (Inr q)
  have "all_completed []" by (simp add: all_completed_def)
  from sampler_loop_completed[OF Inr this] have "all_completed q" .
  from fetch_logs_completed[OF this, of oc_logs "[]"] Inr show ?thesis
    by (auto simp: run_pillowfights_def)
qed


lemma pods_loop_append:
  "pods_loop (xs @ ys) st =
     (case pods_loop xs st of Inl e \<Rightarrow> Inl e | Inr st' \<Rightarrow> pods_loop ys st')"
  by (induction xs arbitrary: st) (auto split: sum.splits)

lemma check_pod_container_error:
  "container_state pod_info = Inl e \<Longrightarrow> check_pod (pf_pod, pod_info) st = Inl e"
  by (simp add: check_pod_def split: prod.splits)

lemma pods_loop_raises_at:
  assumes "container_state pod_info = Inl e"
      and "pods_loop pre (0, q) = Inr (counter, q')"
  shows "pods_loop (pre @ (pf_pod, pod_info) # post) (0, q) = Inl (e, q')"
  using assms by (simp add: pods_loop_append check_pod_container_error)

lemmas poll_defs = run_pillowfights_def poll_iteration_def check_pod_def container_state_def
  pod_with_state_def terminated_def running_def STATUS_COMPLETED_def

section \<open>The claims\<close>

subsection \<open>Malformed OPS/SEC lines\<close>



subsection \<open>The bounds of a bucket\<close>

text \<open>
  The parser stores the two bounds of a histogram line as the line gives them and does
  not compare them: a line whose first bound is the larger one is stored as it is.
\<close>

theorem bucket_bounds_unordered_counterexample:
  "parse_pillowfight_log ''[5 - 3]us |# - 1''
     = Inr \<lparr>opspersec = [], resptimes = [(3, \<lparr>minindx = 5, number = 1\<rparr>)]\<rparr>
   \<and> \<not> minindx \<lparr>minindx = 5, number = 1\<rparr> \<le> 3"
  by (simp add: eval_defs)

text \<open>
  Claim C3, as the code has it. When in every line that matches the pattern the first
  bound is at most the second, every bucket of the returned record has a \<open>minindx\<close> that
  is at most its key.
\<close>

theorem bucket_bounds_ordered_as_written:
  assumes "parse_pillowfight_log text = Inr r"
      and "map_of (resptimes r) k = Some b"
      and "\<forall>dline\<in>set (split_on newline text). bucket_re_match dline \<longrightarrow>
             (\<forall>lo hi. py_int (split_ws (strip_decor dline) ! 0) = Inr lo \<longrightarrow>
                      py_int (split_ws (strip_decor dline) ! 1) = Inr hi \<longrightarrow> lo \<le> hi)"
  shows "minindx b \<le> k"
proof -
  from parse_lines_provenance[OF assms(1)[unfolded parse_pillowfight_log_def] assms(2)]
  obtain l where l: "l \<in> set (split_on newline text)" "bucket_line l = Inr (Some (k, b))"
    by auto
  from l(2) obtain lo hi n where
    m: "bucket_re_match l"
    and lo: "py_int (split_ws (strip_decor l) ! 0) = Inr lo"
    and hi: "py_int (split_ws (strip_decor l) ! 1) = Inr hi"
    and k: "k = (if split_ws (strip_decor l) ! 2 = ''ms'' then hi * 1000 else hi)"
    and b: "b = \<lparr>minindx = (if split_ws (strip_decor l) ! 2 = ''ms'' then lo * 1000 else lo),
                number = n\<rparr>"
    unfolding bucket_line_Some by blast
  from assms(3) l(1) m lo hi have "lo \<le> hi" by blast
  with k b show ?thesis by simp
qed

theorem bucket_bounds_ordered_as_written_witness:
  "parse_pillowfight_log ''[1 - 3]ms |# - 2''
     = Inr \<lparr>opspersec = [], resptimes = [(3000, \<lparr>minindx = 1000, number = 2\<rparr>)]\<rparr>
   \<and> minindx \<lparr>minindx = 1000, number = 2\<rparr> \<le> 3000"
proof -
  have h1: "parse_pillowfight_log ''[1 - 3]ms |# - 2''
     = Inr \<lparr>opspersec = [], resptimes = [(3000, \<lparr>minindx = 1000, number = 2\<rparr>)]\<rparr>"
    by (simp add: eval_defs)
  have h2: "map_of (resptimes \<lparr>opspersec = [], resptimes = [(3000, \<lparr>minindx = 1000, number = 2\<rparr>)]\<rparr>) 3000
     = Some \<lparr>minindx = 1000, number = 2\<rparr>" by simp
  have h3: "\<forall>dline\<in>set (split_on newline ''[1 - 3]ms |# - 2''). bucket_re_match dline \<longrightarrow>
             (\<forall>lo hi. py_int (split_ws (strip_decor dline) ! 0) = Inr lo \<longrightarrow>
                      py_int (split_ws (strip_decor dline) ! 1) = Inr hi \<longrightarrow> lo \<le> hi)"
    by (simp add: eval_defs)
  from bucket_bounds_ordered_as_written[OF h1 h2 h3] h1 show ?thesis by simp
qed

text \<open>
  Claim C4. A histogram line of the text whose bounds and count are integers is stored
  under its second bound, times 1000 when the unit is \<open>ms\<close> and as it is when the unit
  is \<open>us\<close>; these are the only two units. That key is in the returned record, and
  unless a later line stores under the same key, its entry holds the first bound of the
  line, scaled in the same way, and its count.
\<close>

theorem unit_scaling_of_bounds:
  assumes "split_on newline text = pre @ dline # post"
      and "bucket_re_match dline"
      and "py_int (split_ws (strip_decor dline) ! 0) = Inr lo"
      and "py_int (split_ws (strip_decor dline) ! 1) = Inr hi"
      and "py_int (split_ws (strip_decor dline) ! 3) = Inr n"
      and "unit = split_ws (strip_decor dline) ! 2"
      and "k = (if unit = ''ms'' then hi * 1000 else hi)"
      and "v = \<lparr>minindx = (if unit = ''ms'' then lo * 1000 else lo), number = n\<rparr>"
  shows "\<exists>r. parse_pillowfight_log text = Inr r \<and>
           (unit = ''ms'' \<or> unit = ''us'') \<and>
           (\<exists>b. map_of (resptimes r) k = Some b) \<and>
           ((\<forall>l\<in>set post. \<forall>b. bucket_line l \<noteq> Inr (Some (k, b))) \<longrightarrow>
              map_of (resptimes r) k = Some v)"
proof -
  let ?init = "\<lparr>opspersec = [], resptimes = []\<rparr>"
  have bl: "bucket_line dline = Inr (Some (k, v))"
    unfolding bucket_line_Some using assms(2-8) by simp
  from parse_pillowfight_log_total obtain r where r: "parse_pillowfight_log text = Inr r"
    by blast
  then have pl: "parse_lines (pre @ dline # post) ?init = Inr r"
    by (simp add: parse_pillowfight_log_def assms(1))
  have u: "unit = ''ms'' \<or> unit = ''us''"
    using bucket_line_unit[OF assms(2)] assms(6) by simp
  have stored: "\<exists>b. map_of (resptimes r) k = Some b"
    by (rule parse_lines_key_stored[OF bl pl])
  have "map_of (resptimes r) k = Some v"
    if "\<forall>l\<in>set post. \<forall>b. bucket_line l \<noteq> Inr (Some (k, b))"
    using parse_lines_last_write[OF bl that, of pre ?init] pl by simp
  with r u stored show ?thesis by blast
qed

theorem unit_scaling_of_bounds_witness:
  "parse_pillowfight_log (''[1 - 3]ms |# - 2'' @ [newline] @ ''[4 - 7]us |## - 9'')
     = Inr \<lparr>opspersec = [], resptimes = [(3000, \<lparr>minindx = 1000, number = 2\<rparr>),
                                          (7, \<lparr>minindx = 4, number = 9\<rparr>)]\<rparr>
   \<and> map_of [(3000, \<lparr>minindx = 1000, number = 2\<rparr>), (7, \<lparr>minindx = 4, number = 9\<rparr>)] (3000::int)
     = Some \<lparr>minindx = 1000, number = 2\<rparr>"
proof -
  let ?t = "''[1 - 3]ms |# - 2'' @ [newline] @ ''[4 - 7]us |## - 9''"
  have h1: "split_on newline ?t = [] @ ''[1 - 3]ms |# - 2'' # [''[4 - 7]us |## - 9'']"
    by (simp add: newline_def)
  have h2: "bucket_re_match ''[1 - 3]ms |# - 2''" by (simp add: eval_defs)
  have h3: "py_int (split_ws (strip_decor ''[1 - 3]ms |# - 2'') ! 0) = Inr 1" by (simp add: eval_defs)
  have h4: "py_int (split_ws (strip_decor ''[1 - 3]ms |# - 2'') ! 1) = Inr 3" by (simp add: eval_defs)
  have h5: "py_int (split_ws (strip_decor ''[1 - 3]ms |# - 2'') ! 3) = Inr 2" by (simp add: eval_defs)
  have h6: "''ms'' = split_ws (strip_decor ''[1 - 3]ms |# - 2'') ! 2" by (simp add: eval_defs)
  have h7: "(3000::int) = (if ''ms'' = ''ms'' then 3 * 1000 else 3)" by simp
  have h8: "\<lparr>minindx = 1000, number = 2\<rparr> = \<lparr>minindx = (if ''ms'' = ''ms'' then 1 * 1000 else 1), number = 2\<rparr>"
    by simp
  have h9: "\<forall>l\<in>set [''[4 - 7]us |## - 9'']. \<forall>b. bucket_line l \<noteq> Inr (Some (3000, b))"
    by (simp add: eval_defs)
  have e: "parse_pillowfight_log ?t
     = Inr \<lparr>opspersec = [], resptimes = [(3000, \<lparr>minindx = 1000, number = 2\<rparr>),
                                          (7, \<lparr>minindx = 4, number = 9\<rparr>)]\<rparr>"
    by (simp add: eval_defs)
  from unit_scaling_of_bounds[OF h1 h2 h3 h4 h5 h6 h7 h8] h9 e show ?thesis by simp
qed

subsection \<open>Lines with the same key\<close>

text \<open>
  Claim C5. When two lines of the text store under the same key and no line after the
  second one does, the returned record holds under that key the value of the second
  line.
\<close>

theorem duplicate_key_last_write_wins:
  assumes "split_on newline text = pre @ l1 # mid @ l2 # post"
      and "bucket_line l1 = Inr (Some (k, b1))"
      and "bucket_line l2 = Inr (Some (k, b2))"
      and "\<forall>l\<in>set post. \<forall>b. bucket_line l \<noteq> Inr (Some (k, b))"
  shows "\<exists>r. parse_pillowfight_log text = Inr r \<and> map_of (resptimes r) k = Some b2"
proof -
  have "split_on newline text = (pre @ l1 # mid) @ l2 # post"
    using assms(1) by simp
  with parse_lines_last_write[OF assms(3,4), of "pre @ l1 # mid"]
  show ?thesis
    by (simp add: parse_pillowfight_log_def)
qed

theorem duplicate_key_last_write_wins_witness:
  "parse_pillowfight_log
     (''[1 - 3]us |# - 2'' @ [newline] @ ''[2 - 3]us |## - 9'' @ [newline] @ ''[4 - 7]us | - 1'')
     = Inr \<lparr>opspersec = [], resptimes = [(3, \<lparr>minindx = 2, number = 9\<rparr>),
                                          (7, \<lparr>minindx = 4, number = 1\<rparr>)]\<rparr>
   \<and> map_of [(3, \<lparr>minindx = 2, number = 9\<rparr>), (7, \<lparr>minindx = 4, number = 1\<rparr>)] (3::int)
     = Some \<lparr>minindx = 2, number = 9\<rparr>"
proof -
  let ?t = "''[1 - 3]us |# - 2'' @ [newline] @ ''[2 - 3]us |## - 9'' @ [newline] @ ''[4 - 7]us | - 1''"
  have h1: "split_on newline ?t
      = [] @ ''[1 - 3]us |# - 2'' # [] @ ''[2 - 3]us |## - 9'' # [''[4 - 7]us | - 1'']"
    by (simp add: newline_def)
  have h2: "bucket_line ''[1 - 3]us |# - 2'' = Inr (Some (3, \<lparr>minindx = 1, number = 2\<rparr>))"
    by (simp add: eval_defs)
  have h3: "bucket_line ''[2 - 3]us |## - 9'' = Inr (Some (3, \<lparr>minindx = 2, number = 9\<rparr>))"
    by (simp add: eval_defs)
  have h4: "\<forall>l\<in>set [''[4 - 7]us | - 1'']. \<forall>b. bucket_line l \<noteq> Inr (Some (3, b))"
    by (simp add: eval_defs)
  have e: "parse_pillowfight_log ?t
     = Inr \<lparr>opspersec = [], resptimes = [(3, \<lparr>minindx = 2, number = 9\<rparr>),
                                          (7, \<lparr>minindx = 4, number = 1\<rparr>)]\<rparr>"
    by (simp add: eval_defs)
  from duplicate_key_last_write_wins[OF h1 h2 h3 h4] e show ?thesis by simp
qed

subsection \<open>The scenario of the specification\<close>

text \<open>
  The second line of the scenario closes the bar with \<open>|\<close>. The pattern wants a
  blank after the last \<open>#\<close>, so the line is no histogram line and nothing is stored
  for it.
\<close>

theorem scenario_histogram_counterexample:
  "parse_pillowfight_log scenario_text
     \<noteq> Inr \<lparr>opspersec = [1500], resptimes = [(100, \<lparr>minindx = 0, number = 5\<rparr>)]\<rparr>"
  by (simp add: scenario_text_def eval_defs)

text \<open>
  Claim C8, as the code has it. The scenario text yields \<open>opspersec = [1500]\<close> and an
  empty histogram, and \<open>sanity_check\<close> fails on that record with the throughput error
  for 1500. The same text without the closing \<open>|\<close> yields in addition the bucket
  100 with \<open>minindx\<close> 0 and \<open>number\<close> 5, and the same verdict.
\<close>

theorem scenario_result:
  "parse_pillowfight_log scenario_text = Inr \<lparr>opspersec = [1500], resptimes = []\<rparr>
   \<and> \<not> bucket_re_match ''[0 - 100]us |###| - 5''
   \<and> sanity_check \<lparr>opspersec = [1500], resptimes = []\<rparr> = Inl (BelowThroughputFloor 1500)
   \<and> parse_pillowfight_log (''OPS/SEC 1500'' @ [newline] @ ''[0 - 100]us |### - 5'' @ [newline])
       = Inr \<lparr>opspersec = [1500], resptimes = [(100, \<lparr>minindx = 0, number = 5\<rparr>)]\<rparr>
   \<and> sanity_check \<lparr>opspersec = [1500], resptimes = [(100, \<lparr>minindx = 0, number = 5\<rparr>)]\<rparr>
       = Inl (BelowThroughputFloor 1500)"
  by (simp add: scenario_text_def eval_defs sanity_check_def sanity_check_with_def py_min_def
      MIN_ACCEPTABLE_OPS_PER_SEC_def)

subsection \<open>The verdict of sanity_check\<close>

text \<open>
  A record that is below the throughput floor and above the latency ceiling fails with
  the throughput error, not with the latency error.
\<close>

theorem sanity_check_both_violated_counterexample:
  "sanity_check \<lparr>opspersec = [1500], resptimes = [(3000000, \<lparr>minindx = 0, number = 1\<rparr>)]\<rparr>
     = Inl (BelowThroughputFloor 1500)
   \<and> real_of_int 3000000 / 1000 > real_of_int MAX_ACCEPTABLE_RESPONSE_TIME"
  by (simp add: sanity_check_def sanity_check_with_def py_min_def
      MIN_ACCEPTABLE_OPS_PER_SEC_def MAX_ACCEPTABLE_RESPONSE_TIME_def)

text \<open>
  The quotient is a double. For a key of 313 digits the division raises OverflowError,
  and a quotient just above a ceiling of \<open>2 ^ 53\<close> is rounded onto the ceiling, so that
  the check passes.
\<close>

lemma true_div_7000: "true_div 7000 1000 = Inr 7"
  by code_simp

lemma true_div_overflow: "true_div (10 ^ 312) 1000 = Inl OverflowError"
  by code_simp

lemma true_div_rounds: "true_div ((2 ^ 53 + 1) * 1000) 1000 = Inr (2 ^ 53)"
  by code_simp

lemma sanity_check_overflow_example:
  "sanity_check \<lparr>opspersec = [2500], resptimes = [(10 ^ 312, \<lparr>minindx = 0, number = 1\<rparr>)]\<rparr>
     = Inl OverflowError"
  by code_simp

lemma sanity_check_rounding_example:
  "sanity_check_with 2000 (2 ^ 53)
     \<lparr>opspersec = [2500], resptimes = [((2 ^ 53 + 1) * 1000, \<lparr>minindx = 0, number = 1\<rparr>)]\<rparr>
     = Inr ()"
  by code_simp

text \<open>
  Claim C2, as the code has it. For a record with at least one OPS/SEC value and one
  bucket, whose largest key is at least 0 and below \<open>2 ^ 52\<close>: the check fails with the
  throughput error, carrying the smallest OPS/SEC value, exactly when that value is below
  the floor; it fails with the latency error exactly when the throughput is not below the
  floor and the largest key divided by 1000 is above the ceiling; it passes exactly when
  neither is the case; and it fails in no other way. The value the latency error
  carries is the double for the largest key divided by 1000, which is within 1/2048 of
  the quotient.
\<close>

theorem sanity_check_verdict:
  assumes "opspersec st \<noteq> []" and "resptimes st \<noteq> []"
      and "worst_ops = Min (set (opspersec st))"
      and "worst_key = Max (set (map fst (resptimes st)))"
      and "0 \<le> worst_key" and "worst_key < 2 ^ 52"
  shows "(sanity_check_with min_ops max_resp st = Inl (BelowThroughputFloor worst_ops)
            \<longleftrightarrow> worst_ops < min_ops)
       \<and> ((\<exists>v. sanity_check_with min_ops max_resp st = Inl (AboveLatencyCeiling v))
            \<longleftrightarrow> \<not> worst_ops < min_ops
                \<and> real_of_int worst_key / 1000 > real_of_int max_resp)
       \<and> (sanity_check_with min_ops max_resp st = Inr ()
            \<longleftrightarrow> \<not> worst_ops < min_ops
                \<and> \<not> real_of_int worst_key / 1000 > real_of_int max_resp)
       \<and> (\<forall>e. sanity_check_with min_ops max_resp st = Inl e \<longrightarrow>
              e = BelowThroughputFloor worst_ops
              \<or> (\<exists>v. e = AboveLatencyCeiling v \<and> true_div worst_key 1000 = Inr v
                      \<and> \<bar>v - real_of_int worst_key / 1000\<bar> \<le> 1 / 2048))"
proof -
  from true_div_1000_compare[OF assms(5,6)] obtain v where
    v: "true_div worst_key 1000 = Inr v"
    and bound: "\<bar>v - real_of_int worst_key / 1000\<bar> \<le> 1 / 2048"
    and cmp: "\<And>c::int. real_of_int c < v \<longleftrightarrow> 1000 * c < worst_key"
    by blast
  have exact: "real_of_int max_resp < real_of_int worst_key / 1000 \<longleftrightarrow> 1000 * max_resp < worst_key"
  proof -
    have "real_of_int max_resp < real_of_int worst_key / 1000
      \<longleftrightarrow> real_of_int (1000 * max_resp) < real_of_int worst_key"
      by (simp add: mult.commute)
    also have "\<dots> \<longleftrightarrow> 1000 * max_resp < worst_key" by (simp only: of_int_less_iff)
    finally show ?thesis .
  qed
  have r: "sanity_check_with min_ops max_resp st =
      (if worst_ops < min_ops then Inl (BelowThroughputFloor worst_ops)
       else if 1000 * max_resp < worst_key then Inl (AboveLatencyCeiling v)
       else Inr ())"
    using assms(1-4) v cmp[of max_resp]
    by (simp add: sanity_check_with_def py_min_Min py_max_Max)
  show ?thesis
    unfolding r exact using v bound by auto
qed

theorem sanity_check_verdict_witness:
  "sanity_check_with 2000 5
     \<lparr>opspersec = [2500, 2100],
      resptimes = [(3000, \<lparr>minindx = 1000, number = 2\<rparr>), (7000, \<lparr>minindx = 3000, number = 1\<rparr>)]\<rparr>
     = Inl (AboveLatencyCeiling 7)"
proof -
  let ?st = "\<lparr>opspersec = [2500, 2100],
      resptimes = [(3000, \<lparr>minindx = 1000, number = 2\<rparr>), (7000, \<lparr>minindx = 3000, number = 1\<rparr>)]\<rparr>"
  have h1: "opspersec ?st \<noteq> []" by simp
  have h2: "resptimes ?st \<noteq> []" by simp
  have h3: "(2100::int) = Min (set (opspersec ?st))" by simp
  have h4: "(7000::int) = Max (set (map fst (resptimes ?st)))" by simp
  have h5: "(0::int) \<le> 7000" by simp
  have h6: "(7000::int) < 2 ^ 52" by simp
  from sanity_check_verdict[OF h1 h2 h3 h4 h5 h6, of 2000 5]
  have "\<exists>v. sanity_check_with 2000 5 ?st = Inl (AboveLatencyCeiling v)
            \<and> true_div 7000 1000 = Inr v"
    by auto
  then show ?thesis by (simp add: true_div_7000)
qed

text \<open>
  Claim C10. On a record that violates both thresholds the check fails with the
  throughput error, and the histogram plays no part in that result: with any other
  histogram in its place the result is the same.
\<close>

theorem throughput_checked_first:
  assumes "opspersec st \<noteq> []" and "resptimes st \<noteq> []"
      and "Min (set (opspersec st)) < min_ops"
      and "real_of_int (Max (set (map fst (resptimes st)))) / 1000 > real_of_int max_resp"
  shows "sanity_check_with min_ops max_resp st
           = Inl (BelowThroughputFloor (Min (set (opspersec st))))
       \<and> (\<forall>h. sanity_check_with min_ops max_resp (st\<lparr>resptimes := h\<rparr>)
                = sanity_check_with min_ops max_resp st)"
  using assms(1,3)
  by (simp add: sanity_check_with_def py_min_Min)

theorem throughput_checked_first_witness:
  "sanity_check_with 2000 2000 \<lparr>opspersec = [1500], resptimes = [(3000000, \<lparr>minindx = 0, number = 1\<rparr>)]\<rparr>
     = Inl (BelowThroughputFloor 1500)
   \<and> sanity_check_with 2000 2000 \<lparr>opspersec = [1500], resptimes = []\<rparr>
     = Inl (BelowThroughputFloor 1500)"
proof -
  let ?st = "\<lparr>opspersec = [1500], resptimes = [(3000000, \<lparr>minindx = 0, number = 1\<rparr>)]\<rparr>"
  have h1: "opspersec ?st \<noteq> []" by simp
  have h2: "resptimes ?st \<noteq> []" by simp
  have h3: "Min (set (opspersec ?st)) < (2000::int)" by simp
  have h4: "real_of_int (Max (set (map fst (resptimes ?st)))) / 1000 > real_of_int 2000" by simp
  from throughput_checked_first[OF h1 h2 h3 h4] have
    a: "sanity_check_with 2000 2000 ?st = Inl (BelowThroughputFloor (Min (set (opspersec ?st))))"
    and b: "\<forall>h. sanity_check_with 2000 2000 (?st\<lparr>resptimes := h\<rparr>) = sanity_check_with 2000 2000 ?st"
    by blast+
  from b have "sanity_check_with 2000 2000 (?st\<lparr>resptimes := []\<rparr>) = sanity_check_with 2000 2000 ?st"
    by blast
  with a show ?thesis by simp
qed

subsection \<open>A replica that ends with an error\<close>

text \<open>
  Claim C1 on a run of two replicas with three samples before the timeout. The first
  pod is terminated with the reason "Error" in every sample; the second is running and
  then completed. The loop records completed pods only, so the error is never in
  \<open>pods_info\<close>, the count of two is never reached, every sample is used up and the run
  ends with the timeout: the \<open>raise\<close> after the loop is not reached. By
  \<open>run_never_instance_run_failure\<close> this is so on every run.
\<close>

theorem failed_replica_polls_until_timeout:
  "run_pillowfights 2
     [[(''pillowfight-rbd-simple0'', pod_with_state (terminated ''Error'')),
       (''pillowfight-rbd-simple1'', pod_with_state running)],
      [(''pillowfight-rbd-simple0'', pod_with_state (terminated ''Error'')),
       (''pillowfight-rbd-simple1'', pod_with_state (terminated ''Completed''))],
      [(''pillowfight-rbd-simple0'', pod_with_state (terminated ''Error'')),
       (''pillowfight-rbd-simple1'', pod_with_state (terminated ''Completed''))]]
     (\<lambda>pod. ''OPS/SEC 2500'')
   = Inl TimeoutExpiredError"
  by (simp add: poll_defs)

subsection \<open>Status documents without the expected fields\<close>




text \<open>
  Claim C9. When the query of a pod raises IndexError, the sample ends there: the
  result is that of the sample cut off after this pod, whatever pods follow it, no
  \<open>break\<close> is taken, and the loop goes on with the next sample. In the example the
  third pod is completed, and with it the count of two would be reached, but it is not
  recorded.
\<close>

theorem index_error_skips_rest_of_sample:
  assumes "container_state pod_info = Inl IndexError"
      and "pods_loop pre (0, pods_info) = Inr (counter, pods_info')"
  shows "poll_iteration (pre @ (pf_pod, pod_info) # post) replicas pods_info = Continue pods_info'
       \<and> poll_iteration (pre @ (pf_pod, pod_info) # post) replicas pods_info
           = poll_iteration (pre @ [(pf_pod, pod_info)]) replicas pods_info
       \<and> sampler_loop ((pre @ (pf_pod, pod_info) # post) # samples) replicas pods_info
           = sampler_loop samples replicas pods_info'"
  using pods_loop_raises_at[OF assms, of pf_pod post] pods_loop_raises_at[OF assms, of pf_pod "[]"]
  by (simp add: poll_iteration_def)

theorem index_error_skips_rest_of_sample_witness:
  "poll_iteration
     [(''pillowfight-rbd-simple0'', pod_with_state (terminated ''Completed'')),
      (''pillowfight-rbd-simple1'', JObj [(''status'', JObj [(''containerStatuses'', JList [])])]),
      (''pillowfight-rbd-simple2'', pod_with_state (terminated ''Completed''))]
     2 []
   = Continue [(''pillowfight-rbd-simple0'', JStr ''Completed'')]"
proof -
  have h1: "container_state (JObj [(''status'', JObj [(''containerStatuses'', JList [])])])
      = Inl IndexError"
    by (simp add: container_state_def)
  have h2: "pods_loop [(''pillowfight-rbd-simple0'', pod_with_state (terminated ''Completed''))] (0, [])
      = Inr (1, [(''pillowfight-rbd-simple0'', JStr ''Completed'')])"
    by (simp add: poll_defs)
  from index_error_skips_rest_of_sample[OF h1 h2,
      of "''pillowfight-rbd-simple1''"
         "[(''pillowfight-rbd-simple2'', pod_with_state (terminated ''Completed''))]" 2]
  show ?thesis by simp
qed

end
